theory Spec2Isabelle
  imports Complex_Main
begin

section \<open>The vector store of \<open>main.go\<close>\<close>

text \<open>
  The development follows \<open>src/main.go\<close>: the chunker (\<open>clean\<close>, \<open>removeDuplicates\<close>,
  \<open>removeShortStrings\<close>), the similarity functions (\<open>dotproduct\<close>, \<open>magnitude\<close>,
  \<open>similarity\<close>), the retrieval (\<open>getSimilarChunks\<close>) and the persistence
  (\<open>addVectorDocuments\<close>, \<open>loadVdb\<close>, \<open>main\<close>).
\<close>

subsection \<open>Floating-point values\<close>

text \<open>
  A value of Go's \<open>float32\<close> or \<open>float64\<close> is a rational or one of the IEEE
  special values. Every operation computes the exact result and rounds it to the format
  of the operation, to nearest with ties to even, as IEEE 754 has it: a result beyond
  the largest finite value is an infinity, a result below the smallest normal value is
  rounded on the subnormal grid and may become zero. Division by zero gives an infinity
  or NaN and never panics; NaN compares unequal to everything. Each operation rounds on
  its own, as in the program compiled for amd64, where the product and the sum of
  \<open>dp += a[i] * b[i]\<close> are two instructions. The sign of zero is not represented: every sum of squares
  and every dot product the program computes starts from \<open>+0\<close>, so the divisor of
  \<open>similarity\<close> is never \<open>-0\<close>, and \<open>-0\<close> and \<open>+0\<close> are the same map key and
  compare equal.
\<close>

datatype fp = Fin rat | PInf | NInf | NaN

type_synonym f32 = fp
type_synonym f64 = fp

text \<open>\<open>pow2i e\<close> is \<open>2\<close> to the power \<open>e\<close>; \<open>bits n\<close> is the number of binary
  digits of \<open>n\<close>; \<open>ilog2 x\<close>, for \<open>x > 0\<close>, is the exponent \<open>e\<close> with
  \<open>2^e \<le> x < 2^(e+1)\<close>.\<close>

definition pow2i :: "int \<Rightarrow> rat" where
  "pow2i e = (if 0 \<le> e then 2 ^ nat e else 1 / 2 ^ nat (- e))"

function bits :: "int \<Rightarrow> int" where
  "bits n = (if n \<le> 0 then 0 else 1 + bits (n div 2))"
  by pat_completeness auto
termination
  by (relation "measure nat") auto

declare bits.simps [simp del]

definition ilog2 :: "rat \<Rightarrow> int" where
  "ilog2 x = (if 1 \<le> x then bits \<lfloor>x\<rfloor> - 1 else - bits (\<lceil>1 / x\<rceil> - 1))"

definition round_half_even :: "rat \<Rightarrow> int" where
  "round_half_even x =
     (let f = \<lfloor>x\<rfloor>; r = x - of_int f
      in if r < 1 / 2 then f else if 1 / 2 < r then f + 1 else if even f then f else f + 1)"

text \<open>
  Rounding to the binary format of precision \<open>p\<close> and least normal exponent \<open>emin\<close>
  (the greatest exponent is \<open>1 - emin\<close>): the grid around \<open>x\<close> has the step
  \<open>2^(e - p + 1)\<close>, where \<open>e\<close> is the exponent of \<open>x\<close>, or \<open>emin\<close> when \<open>x\<close> is
  subnormal. \<open>float32\<close> has \<open>p = 24\<close> and \<open>emin = -126\<close>, \<open>float64\<close> has
  \<open>p = 53\<close> and \<open>emin = -1022\<close>.
\<close>

definition fp_round :: "nat \<Rightarrow> int \<Rightarrow> rat \<Rightarrow> fp" where
  "fp_round p emin x =
     (if x = 0 then Fin 0
      else (let a = \<bar>x\<bar>;
                e = max (ilog2 a) emin;
                q = pow2i (e - int p + 1);
                y = of_int (round_half_even (a / q)) * q
            in if pow2i (2 - emin) \<le> y then (if 0 < x then PInf else NInf)
               else Fin (if 0 < x then y else - y)))"

definition round32 :: "rat \<Rightarrow> f32" where
  "round32 x = fp_round 24 (- 126) x"

definition round64 :: "rat \<Rightarrow> f64" where
  "round64 x = fp_round 53 (- 1022) x"

text \<open>The operations, for the rounding \<open>rnd\<close> of their format.\<close>

fun fp_add :: "(rat \<Rightarrow> fp) \<Rightarrow> fp \<Rightarrow> fp \<Rightarrow> fp" where
  "fp_add rnd (Fin x) (Fin y) = rnd (x + y)"
| "fp_add rnd (Fin x) PInf = PInf"
| "fp_add rnd (Fin x) NInf = NInf"
| "fp_add rnd PInf (Fin y) = PInf"
| "fp_add rnd PInf PInf = PInf"
| "fp_add rnd PInf NInf = NaN"
| "fp_add rnd NInf (Fin y) = NInf"
| "fp_add rnd NInf PInf = NaN"
| "fp_add rnd NInf NInf = NInf"
| "fp_add rnd NaN b = NaN"
| "fp_add rnd a NaN = NaN"

fun fp_mul :: "(rat \<Rightarrow> fp) \<Rightarrow> fp \<Rightarrow> fp \<Rightarrow> fp" where
  "fp_mul rnd (Fin x) (Fin y) = rnd (x * y)"
| "fp_mul rnd (Fin x) PInf = (if x = 0 then NaN else if 0 < x then PInf else NInf)"
| "fp_mul rnd (Fin x) NInf = (if x = 0 then NaN else if 0 < x then NInf else PInf)"
| "fp_mul rnd PInf (Fin y) = (if y = 0 then NaN else if 0 < y then PInf else NInf)"
| "fp_mul rnd NInf (Fin y) = (if y = 0 then NaN else if 0 < y then NInf else PInf)"
| "fp_mul rnd PInf PInf = PInf"
| "fp_mul rnd PInf NInf = NInf"
| "fp_mul rnd NInf PInf = NInf"
| "fp_mul rnd NInf NInf = PInf"
| "fp_mul rnd NaN b = NaN"
| "fp_mul rnd a NaN = NaN"

fun fp_div :: "(rat \<Rightarrow> fp) \<Rightarrow> fp \<Rightarrow> fp \<Rightarrow> fp" where
  "fp_div rnd (Fin x) (Fin y) =
     (if y = 0 then (if x = 0 then NaN else if 0 < x then PInf else NInf)
      else rnd (x / y))"
| "fp_div rnd (Fin x) PInf = Fin 0"
| "fp_div rnd (Fin x) NInf = Fin 0"
| "fp_div rnd PInf (Fin y) = (if y < 0 then NInf else PInf)"
| "fp_div rnd NInf (Fin y) = (if y < 0 then PInf else NInf)"
| "fp_div rnd PInf PInf = NaN"
| "fp_div rnd PInf NInf = NaN"
| "fp_div rnd NInf PInf = NaN"
| "fp_div rnd NInf NInf = NaN"
| "fp_div rnd NaN b = NaN"
| "fp_div rnd a NaN = NaN"

text \<open>\<open>+\<close>, \<open>*\<close> and \<open>/\<close> on \<open>float32\<close>; \<open>+\<close> and \<open>*\<close> on \<open>float64\<close>.\<close>

definition fadd :: "f32 \<Rightarrow> f32 \<Rightarrow> f32" where
  "fadd a b = fp_add round32 a b"

definition fmul :: "f32 \<Rightarrow> f32 \<Rightarrow> f32" where
  "fmul a b = fp_mul round32 a b"

definition fdiv :: "f32 \<Rightarrow> f32 \<Rightarrow> f32" where
  "fdiv a b = fp_div round32 a b"

definition dadd :: "f64 \<Rightarrow> f64 \<Rightarrow> f64" where
  "dadd a b = fp_add round64 a b"

definition dmul :: "f64 \<Rightarrow> f64 \<Rightarrow> f64" where
  "dmul a b = fp_mul round64 a b"

text \<open>
  The conversions: \<open>float64(x)\<close> of a \<open>float32\<close> is exact, \<open>float32(x)\<close> of a
  \<open>float64\<close> rounds.
\<close>

definition float64 :: "f32 \<Rightarrow> f64" where
  "float64 x = x"

fun float32 :: "f64 \<Rightarrow> f32" where
  "float32 (Fin x) = round32 x"
| "float32 PInf = PInf"
| "float32 NInf = NInf"
| "float32 NaN = NaN"

text \<open>
  \<open>math.Pow(x, 2.0)\<close> on \<open>float64\<close>: the square, \<open>+Inf\<close> for either infinity, NaN
  for NaN. (The square of a value that came from a \<open>float32\<close> has at most 48 binary
  digits and is exact.)
\<close>

fun pow2 :: "f64 \<Rightarrow> f64" where
  "pow2 (Fin x) = round64 (x * x)"
| "pow2 PInf = PInf"
| "pow2 NInf = PInf"
| "pow2 NaN = NaN"

text \<open>The comparison \<open>a > b\<close> of Go: false whenever an operand is NaN.\<close>

fun fgt :: "f32 \<Rightarrow> f32 \<Rightarrow> bool" where
  "fgt (Fin x) (Fin y) = (y < x)"
| "fgt (Fin x) PInf = False"
| "fgt (Fin x) NInf = True"
| "fgt PInf (Fin y) = True"
| "fgt PInf PInf = False"
| "fgt PInf NInf = True"
| "fgt NInf b = False"
| "fgt NaN b = False"
| "fgt a NaN = False"

text \<open>The equality \<open>a == b\<close> of Go, which decides whether two map keys are the same key:
  NaN is equal to nothing, itself included.\<close>

fun feq :: "f32 \<Rightarrow> f32 \<Rightarrow> bool" where
  "feq NaN b = False"
| "feq a NaN = False"
| "feq a b = (a = b)"

subsection \<open>The data model\<close>

record VectorDocument =
  Embedding :: "f32 list"
  Content :: string

subsection \<open>Similarity\<close>

text \<open>
  \<^verbatim>\<open>
  func dotproduct(a, b []float32) float32 {
      if len(a) != len(b) { return 0.0 }
      var dp float32
      for i := 0; i < len(a); i++ { dp += a[i] * b[i] }
      return dp
  }
  \<close>
  The loop is the function \<open>dotproduct_loop\<close> on the index \<open>i\<close> and the accumulator
  \<open>dp\<close>; \<open>b ! i\<close> is read only below \<open>length a = length b\<close>.
\<close>

function dotproduct_loop :: "f32 list \<Rightarrow> f32 list \<Rightarrow> nat \<Rightarrow> f32 \<Rightarrow> f32" where
  "dotproduct_loop a b i dp =
     (if i < length a then dotproduct_loop a b (Suc i) (fadd dp (fmul (a ! i) (b ! i)))
      else dp)"
  by pat_completeness auto
termination
  by (relation "measure (\<lambda>(a, b, i, dp). length a - i)") auto

declare dotproduct_loop.simps [simp del]

definition dotproduct :: "f32 list \<Rightarrow> f32 list \<Rightarrow> f32" where
  "dotproduct a b =
     (if length a \<noteq> length b then Fin 0 else dotproduct_loop a b 0 (Fin 0))"

text \<open>
  \<^verbatim>\<open>
  func magnitude(a []float32) float32 {
      var mag float64
      for i := 0; i < len(a); i++ { mag += math.Pow(float64(a[i]), 2.0) }
      return float32(mag)
  }
  \<close>
  The sum is kept in \<open>float64\<close> and rounded to \<open>float32\<close> at the end.
\<close>

function magnitude_loop :: "f32 list \<Rightarrow> nat \<Rightarrow> f64 \<Rightarrow> f64" where
  "magnitude_loop a i mag =
     (if i < length a then magnitude_loop a (Suc i) (dadd mag (pow2 (float64 (a ! i))))
      else mag)"
  by pat_completeness auto
termination
  by (relation "measure (\<lambda>(a, i, mag). length a - i)") auto

declare magnitude_loop.simps [simp del]

definition magnitude :: "f32 list \<Rightarrow> f32" where
  "magnitude a = float32 (magnitude_loop a 0 (Fin 0))"

definition similarity :: "f32 list \<Rightarrow> f32 list \<Rightarrow> f32" where
  "similarity a b = fdiv (dotproduct a b) (fmul (magnitude a) (magnitude b))"

text \<open>
  The formula in the words of the specification: \<open>dot\<close> is the sum of the elementwise
  products, \<open>sumsq\<close> the sum of the squares of the components, both added from the left
  in the arithmetic of the program (\<open>float32\<close> for \<open>dot\<close>; \<open>float64\<close>, rounded to
  \<open>float32\<close> at the end, for \<open>sumsq\<close>).
\<close>

definition spec_dot :: "f32 list \<Rightarrow> f32 list \<Rightarrow> f32" where
  "spec_dot a b = foldl fadd (Fin 0) (map (\<lambda>(x, y). fmul x y) (zip a b))"

definition spec_sumsq :: "f32 list \<Rightarrow> f32" where
  "spec_sumsq v = float32 (foldl dadd (Fin 0) (map (\<lambda>x. dmul (float64 x) (float64 x)) v))"

subsection \<open>Retrieval\<close>

datatype panic = IndexOutOfRange | SliceBoundsOutOfRange

text \<open>
  The embedder is outside the program (\<open>getEmbeddings\<close> calls the Ollama client): it is
  a parameter, the function from the batch of texts to the pair Go returns, the
  embeddings and the error (\<open>None\<close> for \<open>nil\<close>).
\<close>

type_synonym embedder = "string list \<Rightarrow> f32 list list \<times> string option"

text \<open>
  The Go map \<open>map[float32]string\<close> is an association list without repeated keys, in
  the order of first insertion. \<open>chunks[k] = v\<close> overwrites the value of a key equal
  to \<open>k\<close> and adds an entry otherwise (always, for NaN); \<open>chunks[k]\<close> reads the value
  of the key equal to \<open>k\<close>, the zero value \<open>""\<close> when there is none.
\<close>

type_synonym chunk_map = "(f32 \<times> string) list"

fun map_assign :: "chunk_map \<Rightarrow> f32 \<Rightarrow> string \<Rightarrow> chunk_map" where
  "map_assign [] k v = [(k, v)]"
| "map_assign ((k', v') # m) k v =
     (if feq k' k then (k', v) # m else (k', v') # map_assign m k v)"

fun map_index :: "chunk_map \<Rightarrow> f32 \<Rightarrow> string" where
  "map_index [] k = []"
| "map_index ((k', v') # m) k = (if feq k' k then v' else map_index m k)"

text \<open>
  \<^verbatim>\<open>
  for _, doc := range vdb {
      sim := similarity(embedding[0], doc.Embedding)
      chunks[sim] = doc.Content
  }
  \<close>
  \<open>embedding[0]\<close> is read once per record, and panics when the embedder returned no
  vector.
\<close>

fun similar_loop :: "f32 list list \<Rightarrow> VectorDocument list \<Rightarrow> chunk_map \<Rightarrow> panic + chunk_map" where
  "similar_loop embedding [] chunks = Inr chunks"
| "similar_loop embedding (doc # rest) chunks =
     (case embedding of
        [] \<Rightarrow> Inl IndexOutOfRange
      | e0 # _ \<Rightarrow>
          similar_loop embedding rest
            (map_assign chunks (similarity e0 (Embedding doc)) (Content doc)))"

text \<open>
  \<open>sort.Slice(keys, func(i, j int) bool { return keys[i] > keys[j] })\<close>. The keys of a
  map are pairwise different, and \<open>>\<close> is a strict total order on keys other than NaN,
  so every correct sort returns the same slice from every iteration order of the map:
  the keys in strictly descending order (\<open>sort_Slice_order_independent\<close> below). The
  model ranges over the map in insertion order and sorts by insertion, as Go does for
  short slices: each key moves left while it is greater than its left neighbour. With NaN
  among the keys the slice Go returns depends on the iteration order of the map, which
  the runtime chooses; the model then gives the slice for the insertion order.
  \<open>sink x p\<close> inserts \<open>x\<close> into the sorted prefix \<open>p\<close>, held in reverse (the
  right neighbour first).
\<close>

fun sink :: "f32 \<Rightarrow> f32 list \<Rightarrow> f32 list" where
  "sink x [] = [x]"
| "sink x (y # p) = (if fgt x y then y # sink x p else x # y # p)"

definition sort_Slice :: "f32 list \<Rightarrow> f32 list" where
  "sort_Slice keys = rev (foldl (\<lambda>p x. sink x p) [] keys)"

fun top_loop :: "chunk_map \<Rightarrow> f32 list \<Rightarrow> string list \<Rightarrow> string list" where
  "top_loop chunks [] topChunks = topChunks"
| "top_loop chunks (key # keys) topChunks =
     top_loop chunks keys (topChunks @ [map_index chunks key])"

text \<open>
  \<open>keys\<close> is made with capacity \<open>len(chunks)\<close> and filled with as many keys, so
  \<open>keys[:3]\<close> panics exactly when the map has fewer than three keys.
\<close>

definition getSimilarChunks :: "embedder \<Rightarrow> VectorDocument list \<Rightarrow> string \<Rightarrow> panic + string list" where
  "getSimilarChunks getEmbeddings vdb question =
     (let embedding = fst (getEmbeddings [question]) in
      case similar_loop embedding vdb [] of
        Inl p \<Rightarrow> Inl p
      | Inr chunks \<Rightarrow>
          (let keys = sort_Slice (map fst chunks) in
           if length keys < 3 then Inl SliceBoundsOutOfRange
           else Inr (top_loop chunks (take 3 keys) [])))"

subsection \<open>The chunker\<close>

text \<open>
  A Go string is its bytes. \<open>strings.Split(s, sep)\<close> for a non-empty \<open>sep\<close> cuts
  \<open>s\<close> at the occurrences of \<open>sep\<close> found from the left, without overlap; the result
  always has one piece more than cuts. The program passes the separators
  \<open>"\n\n"\<close> and \<open>" "\<close> only; the empty separator (Go then splits into UTF-8
  sequences) is not modelled.
\<close>

function split_from :: "string \<Rightarrow> string \<Rightarrow> string \<Rightarrow> string list" where
  "split_from sep cur [] = [cur]"
| "split_from sep cur (c # cs) =
     (if sep \<noteq> [] \<and> take (length sep) (c # cs) = sep
      then cur # split_from sep [] (drop (length sep) (c # cs))
      else split_from sep (cur @ [c]) cs)"
  by pat_completeness auto
termination
  by (relation "measure (\<lambda>(sep, cur, s). length s)") auto

definition Split :: "string \<Rightarrow> string \<Rightarrow> string list" where
  "Split s sep = split_from sep [] s"

text \<open>
  \<open>strings.TrimSpace\<close> removes the leading and the trailing white space, as Unicode
  defines it: the six ASCII characters and the code points U+0085, U+00A0, U+1680,
  U+2000 to U+200A, U+2028, U+2029, U+202F, U+205F and U+3000, here by their UTF-8
  encodings.
\<close>

definition space_runes :: "string list" where
  "space_runes =
     [[CHR 0x09], [CHR 0x0A], [CHR 0x0B], [CHR 0x0C], [CHR 0x0D], [CHR 0x20],
      [CHR 0xC2, CHR 0x85], [CHR 0xC2, CHR 0xA0], [CHR 0xE1, CHR 0x9A, CHR 0x80],
      [CHR 0xE2, CHR 0x80, CHR 0x80], [CHR 0xE2, CHR 0x80, CHR 0x81],
      [CHR 0xE2, CHR 0x80, CHR 0x82], [CHR 0xE2, CHR 0x80, CHR 0x83],
      [CHR 0xE2, CHR 0x80, CHR 0x84], [CHR 0xE2, CHR 0x80, CHR 0x85],
      [CHR 0xE2, CHR 0x80, CHR 0x86], [CHR 0xE2, CHR 0x80, CHR 0x87],
      [CHR 0xE2, CHR 0x80, CHR 0x88], [CHR 0xE2, CHR 0x80, CHR 0x89],
      [CHR 0xE2, CHR 0x80, CHR 0x8A], [CHR 0xE2, CHR 0x80, CHR 0xA8],
      [CHR 0xE2, CHR 0x80, CHR 0xA9], [CHR 0xE2, CHR 0x80, CHR 0xAF],
      [CHR 0xE2, CHR 0x81, CHR 0x9F], [CHR 0xE3, CHR 0x80, CHR 0x80]]"

text \<open>The number of bytes of the first of the encodings \<open>ps\<close> that \<open>s\<close> starts with,
  0 when it starts with none.\<close>

fun leading :: "string list \<Rightarrow> string \<Rightarrow> nat" where
  "leading [] s = 0"
| "leading (p # ps) s =
     (if p \<noteq> [] \<and> take (length p) s = p then length p else leading ps s)"

function strip :: "string list \<Rightarrow> string \<Rightarrow> string" where
  "strip ps s = (if leading ps s = 0 then s else strip ps (drop (leading ps s) s))"
  by pat_completeness auto
termination
proof (relation "measure (\<lambda>(ps, s). length s)")
  show "wf (measure (\<lambda>(ps, s). length s))"
    by simp
next
  fix ps :: "string list" and s :: string
  assume pos: "leading ps s \<noteq> 0"
  have "leading ps s \<le> length s"
  proof (induction ps)
    case Nil
    show ?case by simp
  next
    case (Cons p ps)
    show ?case
    proof (cases "p \<noteq> [] \<and> take (length p) s = p")
      case True
      then have "length (take (length p) s) = length p"
        by simp
      then have "length p \<le> length s"
        by simp
      with True show ?thesis by simp
    next
      case False
      with Cons show ?thesis by auto
    qed
  qed
  with pos show "((ps, drop (leading ps s) s), (ps, s)) \<in> measure (\<lambda>(ps, s). length s)"
    by simp
qed

declare strip.simps [simp del]

definition TrimSpace :: "string \<Rightarrow> string" where
  "TrimSpace s = rev (strip (map rev space_runes) (rev (strip space_runes s)))"

text \<open>
  \<^verbatim>\<open>
  func removeDuplicates(s []string) []string {
      m := make(map[string]bool)
      result := []string{}
      for _, item := range s {
          if _, ok := m[item]; !ok {
              m[item] = true
              result = append(result, item)
          }
      }
      return result
  }
  \<close>
\<close>

fun removeDuplicates_loop :: "(string \<rightharpoonup> bool) \<Rightarrow> string list \<Rightarrow> string list \<Rightarrow> string list" where
  "removeDuplicates_loop m result [] = result"
| "removeDuplicates_loop m result (item # s) =
     (case m item of
        None \<Rightarrow> removeDuplicates_loop (m(item \<mapsto> True)) (result @ [item]) s
      | Some ok \<Rightarrow> removeDuplicates_loop m result s)"

definition removeDuplicates :: "string list \<Rightarrow> string list" where
  "removeDuplicates s = removeDuplicates_loop Map.empty [] s"

text \<open>
  \<^verbatim>\<open>
  func removeShortStrings(slice []string) []string {
      var result []string
      for _, str := range slice {
          sl := strings.Split(str, " ")
          if len(sl) > 3 { result = append(result, str) }
      }
      return result
  }
  \<close>
\<close>

fun removeShortStrings_loop :: "string list \<Rightarrow> string list \<Rightarrow> string list" where
  "removeShortStrings_loop result [] = result"
| "removeShortStrings_loop result (str # slice) =
     (let sl = Split str [CHR 0x20] in
      if 3 < length sl then removeShortStrings_loop (result @ [str]) slice
      else removeShortStrings_loop result slice)"

definition removeShortStrings :: "string list \<Rightarrow> string list" where
  "removeShortStrings slice = removeShortStrings_loop [] slice"

fun clean_loop :: "string list \<Rightarrow> string list \<Rightarrow> string list" where
  "clean_loop cleaned [] = cleaned"
| "clean_loop cleaned (s # split) = clean_loop (cleaned @ [TrimSpace s]) split"

definition clean :: "string \<Rightarrow> string list" where
  "clean content =
     (let split = Split content [CHR 0x0A, CHR 0x0A];
          cleaned = clean_loop [] split;
          unique = removeDuplicates cleaned;
          shortRemoved = removeShortStrings unique
      in shortRemoved)"

text \<open>
  The count the specification names, "whitespace-delimited tokens": the number of
  maximal runs of characters that are not white space. \<open>tokens_from inside s\<close> counts
  the runs that start in \<open>s\<close>; \<open>inside\<close> tells whether a run is under way.
\<close>

definition is_space :: "char \<Rightarrow> bool" where
  "is_space c = (c \<in> set [CHR 0x09, CHR 0x0A, CHR 0x0B, CHR 0x0C, CHR 0x0D, CHR 0x20])"

fun tokens_from :: "bool \<Rightarrow> string \<Rightarrow> nat" where
  "tokens_from inside [] = 0"
| "tokens_from inside (c # cs) =
     (if is_space c then tokens_from False cs
      else if inside then tokens_from True cs
      else Suc (tokens_from True cs))"

definition spec_token_count :: "string \<Rightarrow> nat" where
  "spec_token_count s = tokens_from False s"

subsection \<open>Persistence\<close>

text \<open>
  The file \<open>vdb.gob\<close>, as a decoder sees it: \<open>Stream xs\<close> is a file from which
  \<open>Decode\<close> reads the record sequence \<open>xs\<close> (what \<open>Encode\<close> wrote at its
  start; the file is opened without truncation, and one \<open>Decode\<close> reads one value, so
  bytes an older, longer snapshot left behind it are never read). \<open>Corrupt g\<close> is a
  file on which \<open>Decode\<close> fails, leaving \<open>g v\<close> in a target that held \<open>v\<close>: gob
  stores what it has decoded before it meets the error. An empty file is
  \<open>Corrupt (\<lambda>v. v)\<close>. The byte layout of gob is not modelled.

  \<open>Encode\<close> leaves out the fields of a record that have the zero value (an empty
  \<open>Embedding\<close>, an empty \<open>Content\<close>), and \<open>Decode\<close> stores into the slice it is
  given: when the slice has room for the decoded sequence, \<open>Decode\<close> keeps it and
  decodes record by record into its elements, so that a field left out of the stream
  keeps the value the element had; otherwise it decodes into a new slice. The slice has
  room when its capacity is at least the decoded length; the model takes the capacity
  of \<open>vdb\<close> to be its length, as it is for the nil slice of a fresh process.
\<close>

datatype file_content =
  Stream "VectorDocument list"
| Corrupt "VectorDocument list \<Rightarrow> VectorDocument list"

datatype log_entry =
  AddingDocument string
| CallingModel
| CannotOpenGobFile
| CannotGetEmbeddings
| CannotSaveVdb
| ErrorOpeningFile
| ErrorDecoding
| LoadedRecords nat

text \<open>
  The state of a run: the global \<open>vdb\<close>, the file \<open>vdb.gob\<close> (\<open>None\<close> when it
  does not exist) with what the process may do with it (\<open>os.Open\<close> needs an existing,
  readable file; \<open>os.OpenFile\<close> with \<open>O_RDWR|O_CREATE\<close> needs read and write
  access, and creates the file when there is none), the lines logged, and the calls of
  the generator (system text and question).
\<close>

record world =
  vdb :: "VectorDocument list"
  vdb_gob :: "file_content option"
  readable :: bool
  writable :: bool
  logged :: "log_entry list"
  generated :: "(string \<times> string) list"

definition log_Println :: "log_entry \<Rightarrow> world \<Rightarrow> world" where
  "log_Println e w = w\<lparr>logged := logged w @ [e]\<rparr>"

text \<open>
  \<^verbatim>\<open>
  for i, c := range content {
      doc := VectorDocument{Embedding: embeddings[i], Content: c}
      vdb = append(vdb, doc)
  }
  \<close>
  \<open>embeddings[i]\<close> panics at the first chunk that has no embedding.
\<close>

fun add_loop :: "f32 list list \<Rightarrow> nat \<Rightarrow> string list \<Rightarrow> world \<Rightarrow> panic \<times> world + world" where
  "add_loop embeddings i [] w = Inr w"
| "add_loop embeddings i (c # content) w =
     (if i < length embeddings
      then add_loop embeddings (Suc i) content
             (w\<lparr>vdb := vdb w @ [\<lparr>Embedding = embeddings ! i, Content = c\<rparr>]\<rparr>)
      else Inl (IndexOutOfRange, w))"

text \<open>
  \<open>addVectorDocuments\<close>: a failed \<open>os.OpenFile\<close> is logged and leaves \<open>file\<close> nil,
  on which \<open>Close\<close> and the \<open>Write\<close> under \<open>Encode\<close> return an error (the second
  is logged); a failed embedding call is logged too, and the function goes on with the
  embeddings it got. The result is \<open>Inl\<close> when the run panics, with the state it leaves.
\<close>

definition addVectorDocuments :: "embedder \<Rightarrow> string list \<Rightarrow> world \<Rightarrow> panic \<times> world + world" where
  "addVectorDocuments getEmbeddings content w =
     (let opened = (readable w \<and> writable w);
          w1 = (if opened
                then (case vdb_gob w of
                        None \<Rightarrow> w\<lparr>vdb_gob := Some (Corrupt (\<lambda>v. v))\<rparr>
                      | Some f \<Rightarrow> w)
                else log_Println CannotOpenGobFile w);
          (embeddings, err) = getEmbeddings content;
          w2 = (case err of None \<Rightarrow> w1 | Some e \<Rightarrow> log_Println CannotGetEmbeddings w1)
      in case add_loop embeddings 0 content w2 of
           Inl pw \<Rightarrow> Inl pw
         | Inr w3 \<Rightarrow>
             Inr (if opened then w3\<lparr>vdb_gob := Some (Stream (vdb w3))\<rparr>
                  else log_Println CannotSaveVdb w3))"

text \<open>\<open>Decode\<close> of the stream \<open>xs\<close> into the slice \<open>target\<close>.\<close>

definition gob_field :: "'a list \<Rightarrow> 'a list \<Rightarrow> 'a list" where
  "gob_field old new = (if new = [] then old else new)"

definition gob_record :: "VectorDocument \<Rightarrow> VectorDocument \<Rightarrow> VectorDocument" where
  "gob_record old new =
     \<lparr>Embedding = gob_field (Embedding old) (Embedding new),
      Content = gob_field (Content old) (Content new)\<rparr>"

definition gob_Decode :: "VectorDocument list \<Rightarrow> VectorDocument list \<Rightarrow> VectorDocument list" where
  "gob_Decode target xs =
     (if length target < length xs then xs
      else map (\<lambda>(old, new). gob_record old new) (zip target xs))"

text \<open>
  \<open>loadVdb\<close> returns after logging when the file cannot be opened or decoded; it never
  panics.
\<close>

definition loadVdb :: "world \<Rightarrow> world" where
  "loadVdb w =
     (case (if readable w then vdb_gob w else None) of
        None \<Rightarrow> log_Println ErrorOpeningFile w
      | Some (Corrupt g) \<Rightarrow> log_Println ErrorDecoding (w\<lparr>vdb := g (vdb w)\<rparr>)
      | Some (Stream xs) \<Rightarrow>
          log_Println (LoadedRecords (length xs)) (w\<lparr>vdb := gob_Decode (vdb w) xs\<rparr>))"

text \<open>\<open>strings.Join(elems, sep)\<close>.\<close>

fun Join :: "string list \<Rightarrow> string \<Rightarrow> string" where
  "Join [] sep = []"
| "Join [e] sep = e"
| "Join (e # es) sep = e @ sep @ Join es sep"

text \<open>
  \<open>main\<close>, on the arguments \<open>os.Args\<close>. \<open>convert\<close> runs \<open>pdftotext\<close>: it is a
  parameter, the text of the document at a path (\<open>""\<close> when the conversion fails; the
  error is dropped). The Ollama server started in the background and the streaming of
  the answer are left out. \<open>start\<close> is the state of a fresh process: \<open>vdb\<close> is nil.
\<close>

definition start :: "file_content option \<Rightarrow> bool \<Rightarrow> bool \<Rightarrow> world" where
  "start f r wr =
     \<lparr>vdb = [], vdb_gob = f, readable = r, writable = wr, logged = [], generated = []\<rparr>"

definition main_add :: "(string \<Rightarrow> string) \<Rightarrow> embedder \<Rightarrow> string list \<Rightarrow> world \<Rightarrow> panic \<times> world + world" where
  "main_add convert getEmbeddings args w =
     (if length args < 3 then Inl (IndexOutOfRange, w)
      else (let w1 = log_Println (AddingDocument (args ! 2)) w;
                content = convert (args ! 2)
            in addVectorDocuments getEmbeddings (clean content) w1))"

definition main_call :: "embedder \<Rightarrow> string list \<Rightarrow> world \<Rightarrow> panic \<times> world + world" where
  "main_call getEmbeddings args w =
     (let w1 = loadVdb (log_Println CallingModel w) in
      if length args < 3 then Inl (IndexOutOfRange, w1)
      else (case getSimilarChunks getEmbeddings (vdb w1) (args ! 2) of
              Inl p \<Rightarrow> Inl (p, w1)
            | Inr chunks \<Rightarrow>
                Inr (w1\<lparr>generated := generated w1 @ [(Join chunks [CHR 0x0A], args ! 2)]\<rparr>)))"

definition main :: "(string \<Rightarrow> string) \<Rightarrow> embedder \<Rightarrow> string list \<Rightarrow> world \<Rightarrow> panic \<times> world + world" where
  "main convert getEmbeddings args w =
     (if length args < 2 then Inl (IndexOutOfRange, w)
      else (case (if args ! 1 = ''add'' then main_add convert getEmbeddings args w else Inr w) of
              Inl pw \<Rightarrow> Inl pw
            | Inr w' \<Rightarrow>
                if args ! 1 = ''call'' then main_call getEmbeddings args w' else Inr w'))"

subsection \<open>Inputs of the scenarios\<close>

text \<open>
  The store and the query of the retrieval scenario of the specification (contents
  A, B, C with embeddings \<open>[1,0]\<close>, \<open>[0,1]\<close>, \<open>[0.9,0.1]\<close>, the last as the
  \<open>float32\<close> values nearest to 0.9 and 0.1; the embedder answers
  \<open>[1,0]\<close> to every question), a store in which two records have the same similarity to
  that query, the document of the chunking scenario, and a document of four words on
  four lines.
\<close>

definition scenario_store :: "VectorDocument list" where
  "scenario_store =
     [\<lparr>Embedding = [Fin 1, Fin 0], Content = ''A''\<rparr>,
      \<lparr>Embedding = [Fin 0, Fin 1], Content = ''B''\<rparr>,
      \<lparr>Embedding = [round32 (9 / 10), round32 (1 / 10)], Content = ''C''\<rparr>]"

definition scenario_embedder :: embedder where
  "scenario_embedder texts = ([[Fin 1, Fin 0]], None)"

definition tied_store :: "VectorDocument list" where
  "tied_store =
     [\<lparr>Embedding = [Fin 1, Fin 0], Content = ''A''\<rparr>,
      \<lparr>Embedding = [Fin 1, Fin 0], Content = ''B''\<rparr>,
      \<lparr>Embedding = [Fin 0, Fin 1], Content = ''C''\<rparr>]"

definition scenario_document :: string where
  "scenario_document =
     ''alpha beta gamma delta'' @ [CHR 0x0A, CHR 0x0A] @
     ''alpha beta gamma delta'' @ [CHR 0x0A, CHR 0x0A] @ ''short''"

definition lines_document :: string where
  "lines_document = [CHR ''a'', CHR 0x0A, CHR ''b'', CHR 0x0A, CHR ''c'', CHR 0x0A, CHR ''d'']"

text \<open>The embedder of a failed call: no embeddings and an error.\<close>

definition failing_embedder :: embedder where
  "failing_embedder texts = ([], Some ''connection refused'')"

section \<open>Properties\<close>

subsection \<open>Rounding\<close>

text \<open>Rules that evaluate the rounding of a numeral.\<close>

lemma bits_eval:
  "bits 0 = 0" "bits 1 = 1" "bits (numeral k) = 1 + bits (numeral k div 2)"
  by (subst bits.simps, simp)+

lemma floor_rat_eval: "\<lfloor>numeral a / numeral b :: rat\<rfloor> = numeral a div numeral b"
  using floor_divide_of_int_eq [of "numeral a" "numeral b", where ?'a = rat] by simp

lemma ceiling_rat_eval: "\<lceil>numeral a / numeral b :: rat\<rceil> = - ((- numeral a) div numeral b)"
  using floor_divide_of_int_eq [of "- numeral a" "numeral b", where ?'a = rat]
  by (simp add: ceiling_def)

lemma floor_rat_eval1: "\<lfloor>1 / numeral b :: rat\<rfloor> = 1 div numeral b"
  using floor_divide_of_int_eq [of 1 "numeral b", where ?'a = rat] by simp

lemma ceiling_rat_eval1: "\<lceil>1 / numeral b :: rat\<rceil> = - ((- 1) div numeral b)"
  using floor_divide_of_int_eq [of "- 1" "numeral b", where ?'a = rat]
  by (simp add: ceiling_def)

lemmas fp_eval =
  fp_round_def round32_def round64_def ilog2_def round_half_even_def pow2i_def Let_def
  fadd_def fmul_def fdiv_def dadd_def dmul_def float64_def bits_eval
  floor_rat_eval ceiling_rat_eval floor_rat_eval1 ceiling_rat_eval1

text \<open>
  The rounding is to nearest: \<open>ilog2\<close> finds the exponent of its argument, and a finite
  result of \<open>fp_round\<close> is a multiple of the step of the grid, at most half a step
  away from the exact value, and below \<open>2^(emax + 1)\<close>.
\<close>

lemma bits_bounds: "0 < n \<Longrightarrow> 0 < bits n \<and> 2 ^ nat (bits n - 1) \<le> n \<and> n < 2 ^ nat (bits n)"
proof (induction n rule: bits.induct)
  case (1 n)
  show ?case
  proof (cases "n div 2 = 0")
    case True
    with "1.prems" have "n = 1"
      by presburger
    then show ?thesis
      by (simp add: bits_eval)
  next
    case False
    with "1.prems" have pos: "0 < n div 2"
      by presburger
    with "1.prems" have IH: "0 < bits (n div 2) \<and> 2 ^ nat (bits (n div 2) - 1) \<le> n div 2 \<and>
        n div 2 < 2 ^ nat (bits (n div 2))"
      by (intro "1.IH") simp_all
    then obtain b where b: "bits (n div 2) = int (Suc b)"
      by (metis pos_int_cases Suc_pred')
    define m where "m = (2::int) ^ b"
    from IH have lo: "m \<le> n div 2" and hi: "n div 2 < 2 * m"
      unfolding b m_def by (simp_all add: nat_add_distrib)
    have bn: "bits n = int (Suc (Suc b))"
      using "1.prems" b by (subst bits.simps) simp
    have "2 * m \<le> n"
      using lo by presburger
    moreover have "n < 4 * m"
      using hi by presburger
    ultimately show ?thesis
      unfolding bn by (simp add: m_def nat_add_distrib)
  qed
qed

lemma round_half_even_nearest: "\<bar>of_int (round_half_even x) - x\<bar> \<le> 1 / 2"
proof -
  have "of_int \<lfloor>x\<rfloor> \<le> x" and "x < of_int \<lfloor>x\<rfloor> + 1"
    by linarith+
  then show ?thesis
    by (auto simp: round_half_even_def Let_def abs_le_iff)
qed

lemma ilog2_bounds:
  assumes "0 < x"
  shows "pow2i (ilog2 x) \<le> x \<and> x < 2 * pow2i (ilog2 x)"
proof (cases "1 \<le> x")
  case True
  then have fl: "0 < \<lfloor>x\<rfloor>"
    by simp
  from bits_bounds [OF fl] obtain b where b: "bits \<lfloor>x\<rfloor> = int (Suc b)"
    by (metis pos_int_cases Suc_pred')
  from bits_bounds [OF fl] have "2 ^ b \<le> \<lfloor>x\<rfloor>" and "\<lfloor>x\<rfloor> < 2 ^ Suc b"
    unfolding b by (simp_all add: nat_add_distrib)
  then have "of_int (2 ^ b) \<le> x" and "x < of_int (2 ^ Suc b)"
    by (simp_all only: le_floor_iff floor_less_iff)
  then have "(2::rat) ^ b \<le> x" and "x < (2::rat) ^ Suc b"
    by simp_all
  with True show ?thesis
    by (simp add: ilog2_def b pow2i_def nat_add_distrib)
next
  case False
  with assms have y: "1 < 1 / x"
    by simp
  define c where "c = \<lceil>1 / x\<rceil> - 1"
  from y have c: "0 < c"
    unfolding c_def by linarith
  have cy: "of_int c < 1 / x" "1 / x \<le> of_int c + 1"
    unfolding c_def by linarith+
  from bits_bounds [OF c] obtain b where b: "bits c = int (Suc b)"
    by (metis pos_int_cases Suc_pred')
  from bits_bounds [OF c] have "2 ^ b \<le> c" and "c < 2 ^ Suc b"
    unfolding b by (simp_all add: nat_add_distrib)
  then have "2 ^ b \<le> c" and "c + 1 \<le> 2 ^ Suc b"
    by simp_all
  then have "(of_int (2 ^ b) :: rat) \<le> of_int c" and "(of_int (c + 1) :: rat) \<le> of_int (2 ^ Suc b)"
    by (simp_all only: of_int_le_iff)
  then have "(2::rat) ^ b \<le> of_int c" and "of_int c + 1 \<le> (2::rat) ^ Suc b"
    by simp_all
  with cy have lo: "(2::rat) ^ b < 1 / x" and hi: "1 / x \<le> (2::rat) ^ Suc b"
    by linarith+
  from lo assms have "x < 1 / 2 ^ b"
    by (simp add: field_simps)
  moreover from hi assms have "1 / 2 ^ Suc b \<le> x"
    by (simp add: field_simps)
  ultimately show ?thesis
    using False by (simp add: ilog2_def c_def [symmetric] b pow2i_def nat_add_distrib)
qed

lemma pow2i_pos: "0 < pow2i e"
  by (simp add: pow2i_def)

lemma fp_round_nearest:
  assumes "x \<noteq> 0" and "fp_round p emin x = Fin y"
  shows "\<exists>n. \<bar>y\<bar> = of_int n * pow2i (max (ilog2 \<bar>x\<bar>) emin - int p + 1) \<and>
             \<bar>y - x\<bar> \<le> pow2i (max (ilog2 \<bar>x\<bar>) emin - int p + 1) / 2 \<and>
             \<bar>y\<bar> < pow2i (2 - emin)"
proof -
  define q where "q = pow2i (max (ilog2 \<bar>x\<bar>) emin - int p + 1)"
  define n where "n = round_half_even (\<bar>x\<bar> / q)"
  have q: "0 < q"
    by (simp add: q_def pow2i_pos)
  have "\<bar>of_int n - \<bar>x\<bar> / q\<bar> \<le> 1 / 2"
    unfolding n_def by (rule round_half_even_nearest)
  then have "\<bar>of_int n - \<bar>x\<bar> / q\<bar> * q \<le> 1 / 2 * q"
    using q by (intro mult_right_mono) simp_all
  moreover have "(of_int n - \<bar>x\<bar> / q) * q = of_int n * q - \<bar>x\<bar>"
    using q by (simp add: left_diff_distrib)
  then have "\<bar>of_int n * q - \<bar>x\<bar>\<bar> = \<bar>of_int n - \<bar>x\<bar> / q\<bar> * \<bar>q\<bar>"
    by (simp only: abs_mult [symmetric])
  ultimately have near: "\<bar>of_int n * q - \<bar>x\<bar>\<bar> \<le> q / 2"
    using q by simp
  have n0: "0 \<le> n"
  proof -
    have "0 \<le> \<bar>x\<bar> / q"
      using q by simp
    then have "0 \<le> \<lfloor>\<bar>x\<bar> / q\<rfloor>"
      by simp
    then show ?thesis
      by (auto simp: n_def round_half_even_def Let_def)
  qed
  from assms have "of_int n * q < pow2i (2 - emin) \<and>
      y = (if 0 < x then of_int n * q else - (of_int n * q))"
    unfolding fp_round_def Let_def n_def q_def by (simp split: if_splits)
  then have fin: "of_int n * q < pow2i (2 - emin)"
    and y: "y = (if 0 < x then of_int n * q else - (of_int n * q))"
    by simp_all
  have "\<bar>y\<bar> = of_int n * q"
    using y n0 q by simp
  moreover have "\<bar>y - x\<bar> \<le> q / 2"
    using y near assms(1) by (cases "0 < x") (simp_all add: abs_if split: if_splits)
  ultimately show ?thesis
    using fin unfolding q_def by auto
qed

text \<open>
  Values of the rounding: 0.12 and 0.9 are not \<open>float32\<close> values; \<open>2^24 + 1\<close> is
  rounded to \<open>2^24\<close>; \<open>2^128\<close> overflows; half the least subnormal value goes to
  zero; 0.1 in \<open>float64\<close>.
\<close>

lemma round32_examples:
  "round32 (3 / 25) = Fin (16106127 / 134217728)"
  "round32 (9 / 10) = Fin (7549747 / 8388608)"
  "round32 16777217 = Fin 16777216"
  "round32 (2 ^ 128) = PInf"
  "round32 (1 / 2 ^ 150) = Fin 0"
  by (simp_all add: fp_eval)

lemma round64_example: "round64 (1 / 10) = Fin (3602879701896397 / 36028797018963968)"
  by (simp add: fp_eval)

subsection \<open>The similarity loops in closed form\<close>

lemma pow2_dmul: "pow2 x = dmul x x"
  by (cases x) (simp_all add: dmul_def)

lemma dotproduct_loop_foldl:
  "i \<le> length a \<Longrightarrow> length a = length b \<Longrightarrow>
   dotproduct_loop a b i dp =
     foldl fadd dp (map (\<lambda>(x, y). fmul x y) (zip (drop i a) (drop i b)))"
proof (induction a b i dp rule: dotproduct_loop.induct)
  case (1 a b i dp)
  show ?case
  proof (cases "i < length a")
    case True
    with "1.prems" have da: "drop i a = a ! i # drop (Suc i) a"
      and db: "drop i b = b ! i # drop (Suc i) b"
      by (simp_all add: Cons_nth_drop_Suc)
    from True "1.prems" have
      "dotproduct_loop a b (Suc i) (fadd dp (fmul (a ! i) (b ! i))) =
       foldl fadd (fadd dp (fmul (a ! i) (b ! i)))
         (map (\<lambda>(x, y). fmul x y) (zip (drop (Suc i) a) (drop (Suc i) b)))"
      by (intro "1.IH") simp_all
    with True show ?thesis
      by (subst dotproduct_loop.simps) (simp add: da db)
  next
    case False
    with "1.prems" show ?thesis
      by (subst dotproduct_loop.simps) simp
  qed
qed

lemma magnitude_loop_foldl:
  "i \<le> length a \<Longrightarrow>
   magnitude_loop a i mag =
     foldl dadd mag (map (\<lambda>x. dmul (float64 x) (float64 x)) (drop i a))"
proof (induction a i mag rule: magnitude_loop.induct)
  case (1 a i mag)
  show ?case
  proof (cases "i < length a")
    case True
    then have da: "drop i a = a ! i # drop (Suc i) a"
      by (simp add: Cons_nth_drop_Suc)
    from True have
      "magnitude_loop a (Suc i) (dadd mag (pow2 (float64 (a ! i)))) =
       foldl dadd (dadd mag (pow2 (float64 (a ! i))))
         (map (\<lambda>x. dmul (float64 x) (float64 x)) (drop (Suc i) a))"
      by (intro "1.IH") simp_all
    with True show ?thesis
      by (subst magnitude_loop.simps) (simp add: da pow2_dmul)
  next
    case False
    with "1.prems" show ?thesis
      by (subst magnitude_loop.simps) simp
  qed
qed

lemma magnitude_sumsq: "magnitude a = spec_sumsq a"
  by (simp add: magnitude_def spec_sumsq_def magnitude_loop_foldl)

lemma dotproduct_dot: "length a = length b \<Longrightarrow> dotproduct a b = spec_dot a b"
  by (simp add: dotproduct_def spec_dot_def dotproduct_loop_foldl)

lemma dotproduct_mismatch: "length a \<noteq> length b \<Longrightarrow> dotproduct a b = Fin 0"
  by (simp add: dotproduct_def)

text \<open>
  The magnitude of \<open>[3, 4]\<close> is 25, not the Euclidean norm 5. The magnitude of
  \<open>[2^64]\<close> overflows \<open>float32\<close>, that of \<open>[2^-75]\<close> is rounded to zero.
\<close>

lemmas eval_similarity =
  similarity_def dotproduct_def magnitude_def spec_dot_def spec_sumsq_def
  dotproduct_loop_foldl magnitude_loop_foldl fp_eval

lemma magnitude_examples:
  "magnitude [Fin 3, Fin 4] = Fin 25"
  "magnitude [Fin (2 ^ 64)] = PInf"
  "magnitude [Fin (1 / 2 ^ 75)] = Fin 0"
  by (simp_all add: eval_similarity)

subsection \<open>Claim C2: the similarity formula\<close>

text \<open>
  C2: for all vectors \<open>a\<close> and \<open>b\<close> of equal length, the similarity the program computes
  is \<open>dot(a,b) / (sumsq(a) * sumsq(b))\<close>, where \<open>dot\<close> is the sum of the elementwise
  products and \<open>sumsq(v)\<close> the sum of the squares of the components of \<open>v\<close>: the
  magnitude in the divisor is the sum of squares itself, no square root is taken.
\<close>

theorem similarity_sum_of_squares:
  assumes "length a = length b"
  shows "similarity a b = fdiv (spec_dot a b) (fmul (spec_sumsq a) (spec_sumsq b))"
proof -
  have "dotproduct a b = spec_dot a b"
    using assms by (rule dotproduct_dot)
  moreover have "magnitude a = spec_sumsq a" and "magnitude b = spec_sumsq b"
    by (rule magnitude_sumsq)+
  ultimately show ?thesis
    by (simp add: similarity_def)
qed

text \<open>
  On \<open>[3, 4]\<close> and \<open>[1, 0]\<close>: \<open>dot = 3\<close>, the sums of squares are 25 and 1, and the
  similarity is the \<open>float32\<close> nearest to \<open>3 / 25\<close> (the cosine is \<open>3 / 5\<close>).
\<close>

theorem similarity_sum_of_squares_witness:
  "length [Fin 3, Fin 4] = length [Fin 1, Fin 0] \<and>
   spec_dot [Fin 3, Fin 4] [Fin 1, Fin 0] = Fin 3 \<and>
   spec_sumsq [Fin 3, Fin 4] = Fin 25 \<and> spec_sumsq [Fin 1, Fin 0] = Fin 1 \<and>
   similarity [Fin 3, Fin 4] [Fin 1, Fin 0] = Fin (16106127 / 134217728)"
proof -
  have "spec_dot [Fin 3, Fin 4] [Fin 1, Fin 0] = Fin 3"
    and "spec_sumsq [Fin 3, Fin 4] = Fin 25" and "spec_sumsq [Fin 1, Fin 0] = Fin 1"
    and "fdiv (Fin 3) (fmul (Fin 25) (Fin 1)) = Fin (16106127 / 134217728)"
    by (simp_all add: eval_similarity)
  with similarity_sum_of_squares [of "[Fin 3, Fin 4]" "[Fin 1, Fin 0]"] show ?thesis
    by simp
qed

text \<open>The similarity of \<open>[2, 0]\<close> to itself is \<open>4 / (4 * 4)\<close>, where the cosine is 1.\<close>

lemma similarity_self_2_0: "similarity [Fin 2, Fin 0] [Fin 2, Fin 0] = Fin (1 / 4)"
  by (simp add: eval_similarity)

subsection \<open>Retrieval\<close>

text \<open>
  On keys other than NaN, \<open>>\<close> is a strict total order, and equality of keys is
  equality.
\<close>

lemma fgt_irrefl: "\<not> fgt a a"
  by (cases a) simp_all

lemma fgt_trans: "fgt a b \<Longrightarrow> fgt b c \<Longrightarrow> fgt a c"
  by (cases a; cases b; cases c) simp_all

lemma fgt_total: "a \<noteq> NaN \<Longrightarrow> b \<noteq> NaN \<Longrightarrow> a \<noteq> b \<Longrightarrow> fgt a b \<or> fgt b a"
  by (cases a; cases b) auto

lemma feq_eq: "a \<noteq> NaN \<Longrightarrow> feq a b = (a = b)"
  by (cases a; cases b) auto

lemma length_map_assign: "length (map_assign m k v) \<le> Suc (length m)"
  by (induction m k v rule: map_assign.induct) auto

lemma similar_loop_length:
  "similar_loop embedding store chunks = Inr m \<Longrightarrow> length m \<le> length chunks + length store"
proof (induction store arbitrary: chunks)
  case Nil
  then show ?case by simp
next
  case (Cons doc rest)
  show ?case
  proof (cases embedding)
    case Nil
    with Cons.prems show ?thesis by simp
  next
    case (Cons e0 es)
    let ?chunks' = "map_assign chunks (similarity e0 (Embedding doc)) (Content doc)"
    from Cons Cons.prems have "similar_loop embedding rest ?chunks' = Inr m"
      by simp
    then have "length m \<le> length ?chunks' + length rest"
      by (rule Cons.IH)
    also have "\<dots> \<le> Suc (length chunks) + length rest"
      using length_map_assign [of chunks] by simp
    finally show ?thesis by simp
  qed
qed

lemma similar_loop_no_vector:
  "store \<noteq> [] \<Longrightarrow> similar_loop [] store chunks = Inl IndexOutOfRange"
  by (cases store) simp_all

lemma similar_loop_returns:
  "embedding \<noteq> [] \<Longrightarrow> \<exists>m. similar_loop embedding store chunks = Inr m"
  by (induction store arbitrary: chunks) (auto split: list.splits)

lemma length_sink: "length (sink x p) = Suc (length p)"
  by (induction p) auto

lemma length_foldl_sink: "length (foldl (\<lambda>p x. sink x p) p keys) = length p + length keys"
  by (induction keys arbitrary: p) (auto simp: length_sink)

lemma length_sort_Slice: "length (sort_Slice keys) = length keys"
  by (simp add: sort_Slice_def length_foldl_sink)

text \<open>
  The sort: distinct keys other than NaN come out in strictly descending order, the
  same from every order in which the map may have been ranged over.
\<close>

lemma set_sink: "set (sink x p) = insert x (set p)"
  by (induction p) auto

lemma sorted_sink:
  assumes "x \<noteq> NaN" and "NaN \<notin> set p" and "x \<notin> set p"
    and "sorted_wrt (\<lambda>a b. fgt b a) p"
  shows "sorted_wrt (\<lambda>a b. fgt b a) (sink x p)"
  using assms
proof (induction p)
  case Nil
  then show ?case by simp
next
  case (Cons y p)
  show ?case
  proof (cases "fgt x y")
    case True
    with Cons show ?thesis
      by (auto simp: set_sink)
  next
    case False
    with Cons.prems have "fgt y x"
      using fgt_total [of x y] by auto
    with Cons.prems False show ?thesis
      by (auto intro: fgt_trans)
  qed
qed

lemma foldl_sink_sorted:
  assumes "NaN \<notin> set p \<union> set keys" and "distinct (p @ keys)"
    and "sorted_wrt (\<lambda>a b. fgt b a) p"
  shows "sorted_wrt (\<lambda>a b. fgt b a) (foldl (\<lambda>p x. sink x p) p keys) \<and>
         set (foldl (\<lambda>p x. sink x p) p keys) = set p \<union> set keys"
  using assms
proof (induction keys arbitrary: p)
  case Nil
  then show ?case by simp
next
  case (Cons x keys)
  from Cons.prems have "sorted_wrt (\<lambda>a b. fgt b a) (sink x p)"
    by (intro sorted_sink) auto
  moreover from Cons.prems have "NaN \<notin> set (sink x p) \<union> set keys"
    by (auto simp: set_sink)
  moreover from Cons.prems have "distinct (sink x p @ keys)"
    by (auto simp: set_sink distinct_card [symmetric] length_sink card_insert_if
        intro!: card_distinct)
  ultimately have "sorted_wrt (\<lambda>a b. fgt b a) (foldl (\<lambda>p x. sink x p) (sink x p) keys) \<and>
         set (foldl (\<lambda>p x. sink x p) (sink x p) keys) = set (sink x p) \<union> set keys"
    by (intro Cons.IH)
  then show ?case
    by (simp add: set_sink)
qed

lemma sort_Slice_descending:
  "NaN \<notin> set keys \<Longrightarrow> distinct keys \<Longrightarrow> sorted_wrt fgt (sort_Slice keys)"
  using foldl_sink_sorted [of "[]" keys] by (simp add: sort_Slice_def sorted_wrt_rev)

lemma set_sort_Slice: "NaN \<notin> set keys \<Longrightarrow> distinct keys \<Longrightarrow> set (sort_Slice keys) = set keys"
  using foldl_sink_sorted [of "[]" keys] by (simp add: sort_Slice_def)

lemma descending_unique:
  "sorted_wrt fgt xs \<Longrightarrow> sorted_wrt fgt ys \<Longrightarrow> set xs = set ys \<Longrightarrow> xs = ys"
proof (induction xs arbitrary: ys)
  case Nil
  then show ?case by simp
next
  case (Cons x xs)
  then obtain y ys' where ys: "ys = y # ys'"
    by (cases ys) auto
  have "x = y"
  proof (rule ccontr)
    assume "x \<noteq> y"
    with Cons.prems ys have "x \<in> set ys'" and "y \<in> set xs"
      by auto
    with Cons.prems ys have "fgt y x" and "fgt x y"
      by auto
    then show False
      using fgt_trans fgt_irrefl by blast
  qed
  moreover from Cons.prems ys have "x \<notin> set xs" and "y \<notin> set ys'"
    using fgt_irrefl by auto
  ultimately have "set xs = set ys'"
    using Cons.prems ys by auto
  with Cons ys \<open>x = y\<close> show ?case
    by auto
qed

lemma sort_Slice_order_independent:
  assumes "NaN \<notin> set keys" and "distinct keys" and "distinct keys'" and "set keys' = set keys"
  shows "sort_Slice keys' = sort_Slice keys"
  using assms
  by (intro descending_unique) (simp_all add: sort_Slice_descending set_sort_Slice)

text \<open>
  When the similarities of the records to the query are pairwise different and none is
  NaN, every record has its own key, and a store of three records or more gives the
  contents of the three records of highest similarity, highest first.
\<close>

lemma top_loop_map: "top_loop chunks keys topChunks = topChunks @ map (map_index chunks) keys"
  by (induction keys arbitrary: topChunks) simp_all

lemma map_assign_fresh:
  "NaN \<notin> fst ` set m \<Longrightarrow> k \<notin> fst ` set m \<Longrightarrow> map_assign m k v = m @ [(k, v)]"
proof (induction m)
  case Nil
  show ?case by simp
next
  case (Cons kv m)
  obtain k' v' where kv: "kv = (k', v')"
    by (cases kv)
  with Cons.prems have "k' \<noteq> NaN" and "k' \<noteq> k"
    by auto
  then have "\<not> feq k' k"
    by (simp add: feq_eq)
  with Cons kv show ?case
    by simp
qed

lemma similar_loop_distinct:
  assumes "NaN \<notin> fst ` set chunks \<union> (\<lambda>d. similarity e0 (Embedding d)) ` set store"
    and "distinct (map fst chunks @ map (\<lambda>d. similarity e0 (Embedding d)) store)"
  shows "similar_loop (e0 # es) store chunks =
           Inr (chunks @ map (\<lambda>d. (similarity e0 (Embedding d), Content d)) store)"
  using assms
proof (induction store arbitrary: chunks)
  case Nil
  show ?case by simp
next
  case (Cons doc rest)
  let ?k = "similarity e0 (Embedding doc)"
  let ?chunks' = "chunks @ [(?k, Content doc)]"
  from Cons.prems have step: "map_assign chunks ?k (Content doc) = ?chunks'"
    by (intro map_assign_fresh) auto
  from Cons.prems have "similar_loop (e0 # es) rest ?chunks' =
      Inr (?chunks' @ map (\<lambda>d. (similarity e0 (Embedding d), Content d)) rest)"
    by (intro Cons.IH) auto
  with step show ?case
    by simp
qed

lemma map_index_found:
  "NaN \<notin> fst ` set m \<Longrightarrow> distinct (map fst m) \<Longrightarrow> (k, v) \<in> set m \<Longrightarrow> map_index m k = v"
proof (induction m)
  case Nil
  then show ?case by simp
next
  case (Cons kv m)
  obtain k' v' where kv: "kv = (k', v')"
    by (cases kv)
  with Cons.prems have "feq k' k = (k' = k)"
    by (intro feq_eq) auto
  with Cons kv show ?case
    by (auto simp: image_iff)
qed

lemma descending_distinct: "sorted_wrt fgt xs \<Longrightarrow> distinct xs"
  by (induction xs) (auto simp: fgt_irrefl)

lemma getSimilarChunks_distinct:
  assumes emb: "fst (getEmbeddings [question]) = e0 # es"
    and n: "3 \<le> length store"
    and nan: "NaN \<notin> (\<lambda>d. similarity e0 (Embedding d)) ` set store"
    and dist: "distinct (map (\<lambda>d. similarity e0 (Embedding d)) store)"
  shows "\<exists>ds. getSimilarChunks getEmbeddings store question = Inr (map Content (take 3 ds)) \<and>
           set ds = set store \<and> distinct ds \<and>
           sorted_wrt (\<lambda>d d'. fgt (similarity e0 (Embedding d)) (similarity e0 (Embedding d'))) ds"
proof -
  define sim :: "VectorDocument \<Rightarrow> f32" where "sim = (\<lambda>d. similarity e0 (Embedding d))"
  define chunks where "chunks = map (\<lambda>d. (sim d, Content d)) store"
  define keys where "keys = sort_Slice (map sim store)"
  define doc where "doc = the_inv_into (set store) sim"
  define ds where "ds = map doc keys"
  have nan': "NaN \<notin> set (map sim store)" and dist': "distinct (map sim store)"
    using nan dist by (simp_all add: sim_def)
  have inj: "inj_on sim (set store)"
    using dist' by (simp add: distinct_map)
  have loop: "similar_loop (e0 # es) store [] = Inr chunks"
    using similar_loop_distinct [of "[]" e0 store es] nan dist by (simp add: chunks_def sim_def)
  have fst_chunks: "map fst chunks = map sim store"
    by (simp add: chunks_def comp_def)
  have set_keys: "set keys = sim ` set store"
    using set_sort_Slice [OF nan' dist'] by (simp add: keys_def)
  have desc: "sorted_wrt fgt keys"
    using sort_Slice_descending [OF nan' dist'] by (simp add: keys_def)
  have sim_doc: "sim (doc k) = k" if "k \<in> set keys" for k
    unfolding doc_def using inj that set_keys by (intro f_the_inv_into_f) auto
  have doc_mem: "doc k \<in> set store" if "k \<in> set keys" for k
    unfolding doc_def using inj that set_keys by (intro the_inv_into_into) auto
  have sims: "map sim ds = keys"
    unfolding ds_def by (simp add: comp_def sim_doc cong: map_cong)
  have look: "map_index chunks k = Content (doc k)" if "k \<in> set keys" for k
  proof (rule map_index_found)
    show "NaN \<notin> fst ` set chunks"
      using nan' by (auto simp: chunks_def image_iff)
    show "distinct (map fst chunks)"
      using dist' by (simp add: fst_chunks)
    have "(sim (doc k), Content (doc k)) \<in> set chunks"
      using doc_mem [OF that] by (auto simp: chunks_def)
    then show "(k, Content (doc k)) \<in> set chunks"
      by (simp add: sim_doc [OF that])
  qed
  have "map (map_index chunks) (take 3 keys) = map (\<lambda>k. Content (doc k)) (take 3 keys)"
    by (rule map_cong) (auto dest: in_set_takeD simp: look)
  also have "\<dots> = map Content (take 3 ds)"
    by (simp add: ds_def take_map comp_def)
  finally have top: "top_loop chunks (take 3 keys) [] = map Content (take 3 ds)"
    by (simp add: top_loop_map)
  have "length keys = length store"
    by (simp add: keys_def length_sort_Slice)
  with emb loop n top
  have "getSimilarChunks getEmbeddings store question = Inr (map Content (take 3 ds))"
    by (simp add: getSimilarChunks_def fst_chunks keys_def [symmetric])
  moreover have "set ds = set store"
  proof -
    have "set ds = doc ` sim ` set store"
      using set_keys by (simp add: ds_def)
    also have "\<dots> = set store"
      unfolding doc_def using inj by (auto simp: image_iff the_inv_into_f_f)
    finally show ?thesis .
  qed
  moreover have "distinct ds"
    using descending_distinct [OF desc] sims by (metis distinct_map)
  moreover have "sorted_wrt (\<lambda>d d'. fgt (sim d) (sim d')) ds"
    using desc sims by (metis sorted_wrt_map)
  ultimately show ?thesis
    unfolding sim_def by blast
qed

lemma scenario_similarities:
  "similarity [Fin 1, Fin 0] [Fin 1, Fin 0] = Fin 1"
  "similarity [Fin 1, Fin 0] [Fin 0, Fin 1] = Fin 0"
  "similarity [Fin 1, Fin 0] [round32 (9 / 10), round32 (1 / 10)] = Fin (9207009 / 8388608)"
  by (simp_all add: eval_similarity)

lemma scenario_result:
  "getSimilarChunks scenario_embedder scenario_store question = Inr [''C'', ''A'', ''B'']"
  by (simp add: getSimilarChunks_def scenario_embedder_def scenario_store_def
      scenario_similarities sort_Slice_def)

subsection \<open>Claim C1: the retrieval scenario\<close>

text \<open>
  C1 says that on the store of the scenario, with the query embedding \<open>[1,0]\<close> and
  \<open>k = 2\<close>, retrieval returns the contents A, C in that order. The program has no
  \<open>k\<close>: it takes the first three keys. On this input it returns C, A, B: the
  similarity of C is \<open>0.9 / (1 * 0.82)\<close>, in \<open>float32\<close> 9207009/8388608, above
  the 1 of A.
\<close>

theorem scenario_not_A_C:
  "getSimilarChunks scenario_embedder scenario_store ''q'' = Inr [''C'', ''A'', ''B''] \<and>
   getSimilarChunks scenario_embedder scenario_store ''q'' \<noteq> Inr [''A'', ''C'']"
  by (simp add: scenario_result)

text \<open>
  C1, amended: on the store of the scenario and the query embedding \<open>[1,0]\<close>,
  retrieval (whose \<open>k\<close> is fixed at 3) returns three contents, those of the three
  records of the store, in strictly descending order of the similarity the program
  computes between the query and their embeddings; B comes last.
\<close>

theorem scenario_three_ranked:
  "\<exists>ds. getSimilarChunks scenario_embedder scenario_store question = Inr (map Content ds) \<and>
        length ds = 3 \<and> set ds = set scenario_store \<and>
        sorted_wrt (\<lambda>d d'. fgt (similarity [Fin 1, Fin 0] (Embedding d))
                             (similarity [Fin 1, Fin 0] (Embedding d'))) ds \<and>
        Content (last ds) = ''B''"
proof -
  let ?ds = "[scenario_store ! 2, scenario_store ! 0, scenario_store ! 1]"
  have "map Content ?ds = [''C'', ''A'', ''B'']"
    by (simp add: scenario_store_def)
  then have "getSimilarChunks scenario_embedder scenario_store question = Inr (map Content ?ds)"
    by (simp only: scenario_result)
  moreover have "set ?ds = set scenario_store"
    by (auto simp: scenario_store_def)
  moreover have "sorted_wrt (\<lambda>d d'. fgt (similarity [Fin 1, Fin 0] (Embedding d))
                             (similarity [Fin 1, Fin 0] (Embedding d'))) ?ds"
    by (simp add: scenario_store_def scenario_similarities)
  moreover have "Content (last ?ds) = ''B''"
    by (simp add: scenario_store_def)
  ultimately show ?thesis
    by (intro exI [of _ ?ds]) simp
qed

subsection \<open>Claim C3: fewer than three records\<close>

text \<open>
  C3 says that on a store of fewer than three records retrieval returns the contents of
  all the records there are. The program panics on every such store and every query:
  the map has at most as many keys as the store has records, and \<open>keys[:3]\<close> is out of
  bounds (when the embedder returned no vector and the store is not empty,
  \<open>embedding[0]\<close> is out of range before that).
\<close>

theorem few_records_panic:
  assumes "length store < 3"
  shows "getSimilarChunks getEmbeddings store question =
           Inl (if store \<noteq> [] \<and> fst (getEmbeddings [question]) = [] then IndexOutOfRange
                else SliceBoundsOutOfRange)"
proof (cases "store \<noteq> [] \<and> fst (getEmbeddings [question]) = []")
  case True
  then show ?thesis
    by (simp add: getSimilarChunks_def similar_loop_no_vector)
next
  case False
  then have "\<exists>m. similar_loop (fst (getEmbeddings [question])) store [] = Inr m"
    by (cases "store = []") (auto simp: similar_loop_returns)
  then obtain m where m: "similar_loop (fst (getEmbeddings [question])) store [] = Inr m"
    by blast
  from similar_loop_length [OF m] assms have "length m < 3"
    by simp
  with m False show ?thesis
    by (simp add: getSimilarChunks_def length_sort_Slice)
qed

theorem few_records_panic_witness:
  "length (take 2 scenario_store) < 3 \<and>
   getSimilarChunks scenario_embedder (take 2 scenario_store) ''q'' = Inl SliceBoundsOutOfRange"
  using few_records_panic [of "take 2 scenario_store" scenario_embedder "''q''"]
  by (simp add: scenario_store_def scenario_embedder_def)

subsection \<open>Claim C4: three records or more\<close>

text \<open>
  C4 says that on a store of at least three records retrieval returns exactly three
  contents, in descending order of similarity. In \<open>tied_store\<close> the records A and B
  have the same similarity to the query: the map holds two keys for the three records,
  and \<open>keys[:3]\<close> panics.
\<close>

theorem tied_records_panic:
  "length tied_store = 3 \<and>
   getSimilarChunks scenario_embedder tied_store ''q'' = Inl SliceBoundsOutOfRange"
  by (simp add: getSimilarChunks_def scenario_embedder_def tied_store_def
      scenario_similarities sort_Slice_def)

subsection \<open>The chunker's loops in closed form\<close>

lemma clean_loop_map: "clean_loop cleaned split = cleaned @ map TrimSpace split"
  by (induction split arbitrary: cleaned) simp_all

lemma removeShortStrings_loop_filter:
  "removeShortStrings_loop result slice =
     result @ filter (\<lambda>str. 3 < length (Split str [CHR 0x20])) slice"
  by (induction slice arbitrary: result) (simp_all add: Let_def)

lemma removeShortStrings_filter:
  "removeShortStrings slice = filter (\<lambda>str. 3 < length (Split str [CHR 0x20])) slice"
  by (simp add: removeShortStrings_def removeShortStrings_loop_filter)

lemma removeDuplicates_loop_append:
  "removeDuplicates_loop m result s = result @ removeDuplicates_loop m [] s"
proof (induction s arbitrary: m result)
  case Nil
  show ?case by simp
next
  case (Cons item s)
  show ?case
  proof (cases "m item")
    case None
    let ?m = "m(item \<mapsto> True)"
    have "removeDuplicates_loop m result (item # s) = removeDuplicates_loop ?m (result @ [item]) s"
      using None by simp
    also have "\<dots> = (result @ [item]) @ removeDuplicates_loop ?m [] s"
      by (rule Cons.IH)
    also have "\<dots> = result @ ([item] @ removeDuplicates_loop ?m [] s)"
      by simp
    also have "[item] @ removeDuplicates_loop ?m [] s = removeDuplicates_loop ?m [item] s"
      by (rule Cons.IH [symmetric])
    also have "removeDuplicates_loop ?m [item] s = removeDuplicates_loop m [] (item # s)"
      using None by simp
    finally show ?thesis .
  next
    case (Some ok)
    then show ?thesis using Cons.IH [of m result] by simp
  qed
qed

lemma upt_Suc_shift: "[0..<Suc n] = 0 # map Suc [0..<n]"
  by (simp add: upt_conv_Cons map_Suc_upt del: upt_Suc)

lemma nth_filter_Cons:
  "map (nth (x # s)) (filter Q [0..<length (x # s)]) =
     (if Q 0 then [x] else []) @ map (nth s) (filter (\<lambda>i. Q (Suc i)) [0..<length s])"
  using upt_Suc_shift [of "length s"] by (simp add: filter_map comp_def)

text \<open>
  \<open>removeDuplicates_loop\<close> keeps the items at the positions whose item is neither a
  key of the map yet nor found at an earlier position.
\<close>

lemma removeDuplicates_loop_firsts:
  "removeDuplicates_loop m [] s =
     map (nth s) (filter (\<lambda>i. s ! i \<notin> dom m \<and> s ! i \<notin> set (take i s)) [0..<length s])"
proof (induction s arbitrary: m)
  case Nil
  show ?case by simp
next
  case (Cons item s)
  let ?Q = "\<lambda>i. (item # s) ! i \<notin> dom m \<and> (item # s) ! i \<notin> set (take i (item # s))"
  have split: "map (nth (item # s)) (filter ?Q [0..<length (item # s)]) =
      (if ?Q 0 then [item] else []) @ map (nth s) (filter (\<lambda>i. ?Q (Suc i)) [0..<length s])"
    by (rule nth_filter_Cons)
  show ?case
  proof (cases "m item")
    case None
    let ?m = "m(item \<mapsto> True)"
    have "removeDuplicates_loop m [] (item # s) = [item] @ removeDuplicates_loop ?m [] s"
      using None removeDuplicates_loop_append [of ?m "[item]" s] by simp
    also have "removeDuplicates_loop ?m [] s =
          map (nth s) (filter (\<lambda>i. s ! i \<notin> dom ?m \<and> s ! i \<notin> set (take i s)) [0..<length s])"
      by (rule Cons.IH)
    also have "filter (\<lambda>i. s ! i \<notin> dom ?m \<and> s ! i \<notin> set (take i s)) [0..<length s] =
          filter (\<lambda>i. ?Q (Suc i)) [0..<length s]"
      by (rule filter_cong) auto
    finally have "removeDuplicates_loop m [] (item # s) =
        [item] @ map (nth s) (filter (\<lambda>i. ?Q (Suc i)) [0..<length s])" .
    moreover have "(if ?Q 0 then [item] else []) = [item]"
      using None by (simp add: domIff)
    ultimately show ?thesis
      by (simp only: split)
  next
    case (Some ok)
    have "removeDuplicates_loop m [] (item # s) = removeDuplicates_loop m [] s"
      using Some by simp
    also have "removeDuplicates_loop m [] s =
          map (nth s) (filter (\<lambda>i. s ! i \<notin> dom m \<and> s ! i \<notin> set (take i s)) [0..<length s])"
      by (rule Cons.IH)
    also have "filter (\<lambda>i. s ! i \<notin> dom m \<and> s ! i \<notin> set (take i s)) [0..<length s] =
          filter (\<lambda>i. ?Q (Suc i)) [0..<length s]"
      using Some by (intro filter_cong) auto
    finally have "removeDuplicates_loop m [] (item # s) =
        map (nth s) (filter (\<lambda>i. ?Q (Suc i)) [0..<length s])" .
    moreover have "(if ?Q 0 then [item] else []) = []"
      using Some by (simp add: domIff)
    ultimately show ?thesis
      by (simp only: split append_Nil)
  qed
qed

lemma removeDuplicates_firsts:
  "removeDuplicates s = map (nth s) (filter (\<lambda>i. s ! i \<notin> set (take i s)) [0..<length s])"
  by (simp add: removeDuplicates_def removeDuplicates_loop_firsts)

lemma removeDuplicates_loop_distinct:
  "distinct result \<Longrightarrow> set result \<subseteq> dom m \<Longrightarrow> distinct (removeDuplicates_loop m result s)"
proof (induction s arbitrary: m result)
  case Nil
  then show ?case by simp
next
  case (Cons item s)
  show ?case
  proof (cases "m item")
    case None
    with Cons.prems have "item \<notin> set result"
      by (auto simp: domIff)
    with Cons.prems have "distinct (result @ [item])"
      and "set (result @ [item]) \<subseteq> dom (m(item \<mapsto> True))"
      by auto
    then have "distinct (removeDuplicates_loop (m(item \<mapsto> True)) (result @ [item]) s)"
      by (rule Cons.IH)
    with None show ?thesis by simp
  next
    case (Some ok)
    with Cons show ?thesis by simp
  qed
qed

lemma removeDuplicates_distinct: "distinct (removeDuplicates s)"
  by (simp add: removeDuplicates_def removeDuplicates_loop_distinct)

lemma removeDuplicates_set: "set (removeDuplicates s) = set s"
proof
  show "set (removeDuplicates s) \<subseteq> set s"
    by (auto simp: removeDuplicates_firsts)
next
  show "set s \<subseteq> set (removeDuplicates s)"
  proof
    fix x assume "x \<in> set s"
    then obtain ys zs where "s = ys @ x # zs" and "x \<notin> set ys"
      by (auto dest: split_list_first)
    then have "length ys < length s" "s ! length ys = x" "take (length ys) s = ys"
      by simp_all
    with \<open>x \<notin> set ys\<close> have "length ys \<in> set (filter (\<lambda>i. s ! i \<notin> set (take i s)) [0..<length s])"
      by simp
    then have "s ! length ys \<in> set (removeDuplicates s)"
      unfolding removeDuplicates_firsts by (simp only: set_map) (rule imageI)
    with \<open>s ! length ys = x\<close> show "x \<in> set (removeDuplicates s)"
      by simp
  qed
qed

text \<open>Splitting at a single character gives one piece more than the character occurs.\<close>

lemma length_split_from_char:
  "length (split_from [c] cur s) = Suc (count_list s c)"
  by (induction s arbitrary: cur) auto

lemma length_Split_space: "length (Split s [CHR 0x20]) = Suc (count_list s (CHR 0x20))"
  by (simp add: Split_def length_split_from_char)

lemma clean_unfold:
  "clean content =
     filter (\<lambda>str. 3 < length (Split str [CHR 0x20]))
       (removeDuplicates (map TrimSpace (Split content [CHR 0x0A, CHR 0x0A])))"
  by (simp add: clean_def clean_loop_map removeShortStrings_filter)

text \<open>The chunking scenario of the specification: the duplicate and \<open>short\<close> go.\<close>

lemma scenario_document_chunks: "clean scenario_document = [''alpha beta gamma delta'']"
  by code_simp

subsection \<open>Claim C6: short segments\<close>

text \<open>
  C6 says that a deduplicated trimmed segment is dropped exactly when its count of
  whitespace-delimited tokens is at most 3. \<open>removeShortStrings\<close> splits at the space
  character only: the segment \<open>a\nb\nc\nd\<close> has four tokens and no space, and is
  dropped.
\<close>

theorem newline_tokens_dropped:
  "lines_document \<in> set (removeDuplicates (clean_loop [] (Split lines_document [CHR 0x0A, CHR 0x0A]))) \<and>
   spec_token_count lines_document = 4 \<and>
   lines_document \<notin> set (clean lines_document)"
  by code_simp

text \<open>
  C6, amended: a deduplicated trimmed segment of a document is in the chunker's output
  exactly when \<open>strings.Split(segment, " ")\<close> has more than 3 pieces, and it is dropped
  when it has 3 or fewer; the number of pieces is one more than the number of space
  characters in the segment.
\<close>

theorem short_segments_by_spaces:
  assumes "s \<in> set (removeDuplicates (clean_loop [] (Split content [CHR 0x0A, CHR 0x0A])))"
  shows "(s \<in> set (clean content)) = (3 < length (Split s [CHR 0x20])) \<and>
         length (Split s [CHR 0x20]) = Suc (count_list s (CHR 0x20))"
proof
  from assms have "s \<in> set (removeDuplicates (map TrimSpace (Split content [CHR 0x0A, CHR 0x0A])))"
    by (simp add: clean_loop_map)
  then show "(s \<in> set (clean content)) = (3 < length (Split s [CHR 0x20]))"
    by (simp add: clean_unfold)
next
  show "length (Split s [CHR 0x20]) = Suc (count_list s (CHR 0x20))"
    by (rule length_Split_space)
qed

theorem short_segments_by_spaces_witness:
  "''alpha beta gamma delta'' \<in>
     set (removeDuplicates (clean_loop [] (Split scenario_document [CHR 0x0A, CHR 0x0A]))) \<and>
   (''alpha beta gamma delta'' \<in> set (clean scenario_document)) =
     (3 < length (Split ''alpha beta gamma delta'' [CHR 0x20])) \<and>
   length (Split ''alpha beta gamma delta'' [CHR 0x20]) = 4"
proof -
  have h: "''alpha beta gamma delta'' \<in>
     set (removeDuplicates (clean_loop [] (Split scenario_document [CHR 0x0A, CHR 0x0A])))"
    by code_simp
  from h short_segments_by_spaces [OF h] show ?thesis
    by simp
qed

subsection \<open>Claim C7: duplicates\<close>

text \<open>
  C7: for every document text, the chunker returns each distinct trimmed segment at most
  once: it keeps the first occurrence of each text only (among those, the segments that
  are long enough), in the order of these first occurrences in the document.
\<close>

theorem clean_first_occurrences:
  "clean content =
     (let segs = map TrimSpace (Split content [CHR 0x0A, CHR 0x0A])
      in map (nth segs)
           (filter (\<lambda>i. segs ! i \<notin> set (take i segs) \<and> 3 < length (Split (segs ! i) [CHR 0x20]))
              [0..<length segs])) \<and>
   distinct (clean content)"
proof
  let ?segs = "map TrimSpace (Split content [CHR 0x0A, CHR 0x0A])"
  have "clean content =
        filter (\<lambda>str. 3 < length (Split str [CHR 0x20])) (removeDuplicates ?segs)"
    by (rule clean_unfold)
  also have "\<dots> = map (nth ?segs)
      (filter (\<lambda>i. ?segs ! i \<notin> set (take i ?segs) \<and> 3 < length (Split (?segs ! i) [CHR 0x20]))
         [0..<length ?segs])"
    by (simp add: removeDuplicates_firsts filter_map comp_def)
  finally show "clean content =
     (let segs = ?segs
      in map (nth segs)
           (filter (\<lambda>i. segs ! i \<notin> set (take i segs) \<and> 3 < length (Split (segs ! i) [CHR 0x20]))
              [0..<length segs]))"
    by (simp only: Let_def)
next
  show "distinct (clean content)"
    by (simp add: clean_unfold removeDuplicates_distinct)
qed

subsection \<open>Persistence\<close>

text \<open>
  The loop of \<open>addVectorDocuments\<close> appends one record per chunk for as long as there
  are embeddings, and panics at the first chunk without one.
\<close>

lemma add_loop_zip:
  "add_loop embeddings i content w =
     (let w' = w\<lparr>vdb := vdb w @ map (\<lambda>(e, c). \<lparr>Embedding = e, Content = c\<rparr>)
                                  (zip (drop i embeddings) content)\<rparr>
      in if length content \<le> length embeddings - i then Inr w' else Inl (IndexOutOfRange, w'))"
proof (induction content arbitrary: i w)
  case Nil
  show ?case by simp
next
  case (Cons c content)
  show ?case
  proof (cases "i < length embeddings")
    case True
    then have d: "drop i embeddings = embeddings ! i # drop (Suc i) embeddings"
      by (simp add: Cons_nth_drop_Suc)
    from True have "(length (c # content) \<le> length embeddings - i) =
        (length content \<le> length embeddings - Suc i)"
      by auto
    with True show ?thesis
      by (simp add: Cons.IH d Let_def)
  next
    case False
    then show ?thesis by simp
  qed
qed

text \<open>
  A first \<open>call\<close> with no \<open>vdb.gob\<close>: \<open>loadVdb\<close> logs and returns, the store stays
  empty, and the retrieval that follows panics.
\<close>

lemma call_without_snapshot_panics:
  "main convert getEmbeddings [prog, ''call'', question] (start None r wr) =
     Inl (SliceBoundsOutOfRange,
          \<lparr>vdb = [], vdb_gob = None, readable = r, writable = wr,
           logged = [CallingModel, ErrorOpeningFile], generated = []\<rparr>)"
  by (simp add: main_def main_call_def loadVdb_def log_Println_def start_def
      getSimilarChunks_def sort_Slice_def)

subsection \<open>Claim C5: a failed embedding call\<close>

text \<open>
  C5 says that when the embedding call fails on a non-empty chunk list,
  \<open>addVectorDocuments\<close> logs the error, goes on, terminates normally and stores
  records with empty or partial embeddings. The program logs the error and goes on, but
  whenever the embedder returned fewer embeddings than there are chunks (none at all,
  when the call failed) it panics at \<open>embeddings[i]\<close>: it does not terminate normally,
  and \<open>Encode\<close> is never reached, so that no record is stored; the file is at most
  created, empty.
\<close>

theorem failed_embedding_panics:
  assumes "getEmbeddings content = (embeddings, Some e)"
    and "length embeddings < length content"
  shows "addVectorDocuments getEmbeddings content w =
           Inl (IndexOutOfRange,
                w\<lparr>vdb := vdb w @ map (\<lambda>(e, c). \<lparr>Embedding = e, Content = c\<rparr>) (zip embeddings content),
                  vdb_gob := (if readable w \<and> writable w \<and> vdb_gob w = None
                              then Some (Corrupt (\<lambda>v. v)) else vdb_gob w),
                  logged := logged w @ (if readable w \<and> writable w then [] else [CannotOpenGobFile])
                              @ [CannotGetEmbeddings]\<rparr>)"
  using assms
  by (auto simp: addVectorDocuments_def add_loop_zip Let_def log_Println_def split: option.splits)

theorem failed_embedding_panics_witness:
  "failing_embedder [''alpha beta gamma delta''] = ([], Some ''connection refused'') \<and>
   length ([] :: f32 list list) < length [''alpha beta gamma delta''] \<and>
   addVectorDocuments failing_embedder [''alpha beta gamma delta''] (start None True True) =
     Inl (IndexOutOfRange,
          \<lparr>vdb = [], vdb_gob = Some (Corrupt (\<lambda>v. v)), readable = True, writable = True,
           logged = [CannotGetEmbeddings], generated = []\<rparr>)"
  using failed_embedding_panics [of failing_embedder "[''alpha beta gamma delta'']" "[]"
      "''connection refused''" "start None True True"]
  by (simp add: start_def failing_embedder_def)

subsection \<open>Claim C8: the snapshot written by an add\<close>

text \<open>
  C8: the snapshot that an add writes holds the records in memory at the call, followed
  by the new ones, and nothing else: whatever \<open>vdb.gob\<close> held before (\<open>prior\<close>) has
  no part in it. The add path of \<open>main\<close> starts from the empty \<open>vdb\<close> of a fresh
  process and never loads the file, so its snapshot holds the records of the document
  being added only; records of a prior snapshot are gone.
\<close>

theorem add_snapshot_is_memory:
  assumes "readable w" and "writable w"
    and "length content \<le> length (fst (getEmbeddings content))"
  shows "(\<exists>w'. addVectorDocuments getEmbeddings content (w\<lparr>vdb_gob := prior\<rparr>) = Inr w' \<and>
            vdb w' = vdb w @ map (\<lambda>(e, c). \<lparr>Embedding = e, Content = c\<rparr>)
                               (zip (fst (getEmbeddings content)) content) \<and>
            vdb_gob w' = Some (Stream (vdb w'))) \<and>
         (clean (convert path) = content \<longrightarrow>
            (\<exists>w'. main convert getEmbeddings [prog, ''add'', path] (start prior True True) = Inr w' \<and>
               vdb_gob w' = Some (Stream (map (\<lambda>(e, c). \<lparr>Embedding = e, Content = c\<rparr>)
                                            (zip (fst (getEmbeddings content)) content)))))"
proof
  show "\<exists>w'. addVectorDocuments getEmbeddings content (w\<lparr>vdb_gob := prior\<rparr>) = Inr w' \<and>
            vdb w' = vdb w @ map (\<lambda>(e, c). \<lparr>Embedding = e, Content = c\<rparr>)
                               (zip (fst (getEmbeddings content)) content) \<and>
            vdb_gob w' = Some (Stream (vdb w'))"
    using assms
    by (auto simp: addVectorDocuments_def add_loop_zip Let_def log_Println_def
        split: option.splits prod.splits)
next
  show "clean (convert path) = content \<longrightarrow>
          (\<exists>w'. main convert getEmbeddings [prog, ''add'', path] (start prior True True) = Inr w' \<and>
             vdb_gob w' = Some (Stream (map (\<lambda>(e, c). \<lparr>Embedding = e, Content = c\<rparr>)
                                          (zip (fst (getEmbeddings content)) content))))"
    using assms(3)
    by (auto simp: main_def main_add_def start_def addVectorDocuments_def add_loop_zip Let_def
        log_Println_def split: option.splits prod.splits)
qed

theorem add_snapshot_is_memory_witness:
  "readable (start None True True) \<and> writable (start None True True) \<and>
   length [''alpha beta gamma delta''] \<le> length (fst (scenario_embedder [''alpha beta gamma delta''])) \<and>
   clean ((\<lambda>path. scenario_document) ''doc.pdf'') = [''alpha beta gamma delta''] \<and>
   (\<exists>w'. main (\<lambda>path. scenario_document) scenario_embedder [''vdb'', ''add'', ''doc.pdf'']
            (start (Some (Stream [\<lparr>Embedding = [Fin 0, Fin 1], Content = ''an earlier chunk of text''\<rparr>]))
               True True) = Inr w' \<and>
          vdb_gob w' =
            Some (Stream [\<lparr>Embedding = [Fin 1, Fin 0], Content = ''alpha beta gamma delta''\<rparr>]))"
  using add_snapshot_is_memory [where w = "start None True True"
      and content = "[''alpha beta gamma delta'']" and getEmbeddings = scenario_embedder
      and convert = "\<lambda>path. scenario_document" and path = "''doc.pdf''" and prog = "''vdb''"
      and prior = "Some (Stream [\<lparr>Embedding = [Fin 0, Fin 1], Content = ''an earlier chunk of text''\<rparr>])"]
  by (simp add: start_def scenario_embedder_def scenario_document_chunks)

subsection \<open>Claim C9: append, then load\<close>

text \<open>
  A load into the empty slice of a fresh process leaves the decoded sequence in memory;
  a load of the sequence that is in memory already leaves it as it is.
\<close>

lemma gob_Decode_fresh: "gob_Decode [] xs = xs"
  by (cases xs) (simp_all add: gob_Decode_def)

lemma gob_record_same: "gob_record r r = r"
  by (simp add: gob_record_def gob_field_def)

lemma gob_Decode_same: "gob_Decode xs xs = xs"
  by (induction xs) (simp_all add: gob_Decode_def gob_record_same)

text \<open>
  C9: for all records \<open>r1\<close> and \<open>r2\<close>, from the empty store of a fresh process with no
  snapshot file, adding the two contents with their two embeddings leaves \<open>[r1, r2]\<close>
  in memory and writes the snapshot \<open>[r1, r2]\<close>; the load that follows leaves exactly
  \<open>[r1, r2]\<close> in memory, contents and embeddings as they were added, and so does the
  load of a fresh process, with nothing in memory, that finds the file the add wrote.
\<close>

theorem append_load_round_trip:
  "\<exists>w. addVectorDocuments (\<lambda>texts. ([Embedding r1, Embedding r2], None))
          [Content r1, Content r2] (start None True True) = Inr w \<and>
        vdb w = [r1, r2] \<and>
        vdb_gob w = Some (Stream [r1, r2]) \<and>
        vdb (loadVdb w) = [r1, r2] \<and>
        vdb (loadVdb (start (vdb_gob w) True True)) = [r1, r2]"
proof -
  let ?w = "\<lparr>vdb = [r1, r2], vdb_gob = Some (Stream [r1, r2]), readable = True,
             writable = True, logged = [], generated = []\<rparr>"
  have add: "addVectorDocuments (\<lambda>texts. ([Embedding r1, Embedding r2], None))
          [Content r1, Content r2] (start None True True) = Inr ?w"
    by (simp add: addVectorDocuments_def add_loop_zip Let_def start_def)
  have same: "vdb (loadVdb ?w) = [r1, r2]"
    by (simp add: loadVdb_def log_Println_def gob_Decode_same)
  have fresh: "vdb (loadVdb (start (vdb_gob ?w) True True)) = [r1, r2]"
    by (simp add: loadVdb_def log_Println_def start_def gob_Decode_fresh)
  from add same fresh show ?thesis
    by (intro exI [of _ ?w]) simp
qed

subsection \<open>Claim C10: a load that fails\<close>

text \<open>
  C10 says that, whatever the state in memory before, a load that finds no file or cannot
  decode it leaves the empty sequence in memory. \<open>loadVdb\<close> returns without touching
  \<open>vdb\<close> when the file cannot be opened: a record in memory before is still there.
\<close>

theorem load_keeps_memory:
  "vdb (loadVdb \<lparr>vdb = [\<lparr>Embedding = [Fin 1], Content = ''kept''\<rparr>], vdb_gob = None,
                  readable = True, writable = True, logged = [], generated = []\<rparr>) =
     [\<lparr>Embedding = [Fin 1], Content = ''kept''\<rparr>] \<and>
   vdb (loadVdb \<lparr>vdb = [\<lparr>Embedding = [Fin 1], Content = ''kept''\<rparr>], vdb_gob = None,
                  readable = True, writable = True, logged = [], generated = []\<rparr>) \<noteq> []"
  by (simp add: loadVdb_def log_Println_def)

text \<open>
  C10, amended: when the snapshot file is absent or cannot be opened, \<open>loadVdb\<close> logs
  the error, does not crash and leaves the state in memory as it was (empty when it was
  empty, as it is when \<open>main\<close> calls it); when the contents of the file fail to decode,
  it logs the error and does not crash, and the state in memory is what the decoder left
  of it (unchanged when the decoder fails before it stores anything, as on an empty file).
\<close>

theorem load_failure_soft:
  "(vdb_gob w = None \<or> \<not> readable w \<longrightarrow>
      loadVdb w = w\<lparr>logged := logged w @ [ErrorOpeningFile]\<rparr>) \<and>
   (readable w \<and> vdb_gob w = Some (Corrupt g) \<longrightarrow>
      loadVdb w = w\<lparr>vdb := g (vdb w), logged := logged w @ [ErrorDecoding]\<rparr>)"
  by (auto simp: loadVdb_def log_Println_def)

theorem load_failure_soft_witness:
  "vdb_gob (start None True True) = None \<and>
   loadVdb (start None True True) =
     \<lparr>vdb = [], vdb_gob = None, readable = True, writable = True,
      logged = [ErrorOpeningFile], generated = []\<rparr> \<and>
   readable (start (Some (Corrupt (\<lambda>v. v))) True True) \<and>
   vdb_gob (start (Some (Corrupt (\<lambda>v. v))) True True) = Some (Corrupt (\<lambda>v. v)) \<and>
   loadVdb (start (Some (Corrupt (\<lambda>v. v))) True True) =
     \<lparr>vdb = [], vdb_gob = Some (Corrupt (\<lambda>v. v)), readable = True, writable = True,
      logged = [ErrorDecoding], generated = []\<rparr>"
  using load_failure_soft [of "start None True True"]
    load_failure_soft [of "start (Some (Corrupt (\<lambda>v. v))) True True" "\<lambda>v. v"]
  by (simp add: start_def)

end
